theory Spec2Isabelle
  imports Complex_Main "HOL-Library.Word"
begin

unbundle bit_operations_syntax

section \<open>Data model\<close>

text \<open>
  \<^verbatim>\<open>uint8_t\<close> and \<^verbatim>\<open>uint64_t\<close> are words of 8 and 64 bits, on which \<open>+\<close>, \<open>*\<close> and the left
  shift \<open>push_bit\<close> wrap around.  \<^verbatim>\<open>size_t\<close> and \<^verbatim>\<open>unsigned long\<close> are taken to be 64 bits wide
  as well, as the \<^verbatim>\<open>lx\<close> conversions of \<^verbatim>\<open>uint64_t\<close> values in the code presuppose.
\<close>

type_synonym u8 = "8 word"
type_synonym u64 = "64 word"
type_synonym size_t = "64 word"

text \<open>
  The two file-scope variables \<^verbatim>\<open>static uint64_t s0, s1\<close> of SynHash.c.  Every function
  that touches them takes the record and returns the updated one.
\<close>

record globals =
  s0 :: u64
  s1 :: u64

text \<open>The values the static initialisers give the two words at program start.\<close>

definition initial_globals :: globals where
  "initial_globals = \<lparr>s0 = 0, s1 = 0\<rparr>"

section \<open>Xorshift128X\<close>

text \<open>
  \<^verbatim>\<open>uint64_t Xorshift128X(uint64_t x)\<close>: the locals \<open>c\<close>, \<open>b\<close>, \<open>a\<close> and \<open>result\<close> keep their
  names; \<open>b'\<close> is \<open>b\<close> after \<^verbatim>\<open>b ^= (b << 23)\<close>.
\<close>

definition Xorshift128X :: "u64 \<Rightarrow> globals \<Rightarrow> u64 \<times> globals" where
  "Xorshift128X x g =
     (let c = push_bit 30 x;
          b = s0 g;
          a = s1 g;
          result = a + b;
          g1 = g\<lparr>s0 := a XOR c\<rparr>;
          b' = b XOR push_bit 23 b;
          g2 = g1\<lparr>s1 := b' XOR a XOR drop_bit 18 b' XOR drop_bit 5 a\<rparr>
      in (result, g2))"

section \<open>hashBlock\<close>

text \<open>
  A pointer into a byte array is the list of the bytes from the pointer on, so
  \<^verbatim>\<open>block[i]\<close> is \<open>block ! i\<close>.  The first loop counts \<open>i\<close> up to \<open>length\<close>, the second
  counts it down from \<open>length\<close> to 1 and reads \<^verbatim>\<open>block[i - 1]\<close>.
\<close>

function hashBlock_loop1 :: "u8 list \<Rightarrow> nat \<Rightarrow> nat \<Rightarrow> u64 \<times> globals \<Rightarrow> u64 \<times> globals" where
  "hashBlock_loop1 block len i (result, g) =
     (if i < len then
        (let (r, g') = Xorshift128X (ucast (block ! i)) g
         in hashBlock_loop1 block len (i + 1) (result XOR r, g'))
      else (result, g))"
  by pat_completeness auto
termination
  by (relation "measure (\<lambda>(block, len, i, acc). len - i)") auto

declare hashBlock_loop1.simps [simp del]

fun hashBlock_loop2 :: "u8 list \<Rightarrow> nat \<Rightarrow> u64 \<times> globals \<Rightarrow> u64 \<times> globals" where
  "hashBlock_loop2 block 0 (result, g) = (result, g)"
| "hashBlock_loop2 block (Suc j) (result, g) =
     (let (r, g') = Xorshift128X (ucast (block ! j)) g
      in hashBlock_loop2 block j (result XOR r, g'))"

definition hashBlock :: "u8 list \<Rightarrow> nat \<Rightarrow> globals \<Rightarrow> u64 \<times> globals" where
  "hashBlock block len g =
     hashBlock_loop2 block len (hashBlock_loop1 block len 0 (0, g))"

section \<open>hash\<close>

definition subBlockSize :: size_t where
  "subBlockSize = 8"

definition blockSize :: size_t where
  "blockSize = subBlockSize * 4"

text \<open>
  \<^verbatim>\<open>memcpy(dst, src, n)\<close> on lists: the first \<open>n\<close> bytes of \<open>dst\<close> are replaced by the first
  \<open>n\<close> bytes at \<open>src\<close>.  It stands for the C call as long as \<open>n\<close> bytes are readable at
  \<open>src\<close> and writable at \<open>dst\<close>.
\<close>

definition memcpy :: "u8 list \<Rightarrow> u8 list \<Rightarrow> nat \<Rightarrow> u8 list" where
  "memcpy dst src n = take n src @ drop n dst"

text \<open>
  \<^verbatim>\<open>%016lx\<close>: the \<^verbatim>\<open>lx\<close> conversion writes an \<^verbatim>\<open>unsigned long\<close> (64 bits here) in base 16
  with the digits \<^verbatim>\<open>0123456789abcdef\<close>, most significant digit first and no leading
  zeros; the flag \<^verbatim>\<open>0\<close> with width 16 pads it with zeros on the left to 16 characters.
\<close>

definition hex_digit :: "nat \<Rightarrow> char" where
  "hex_digit d = ''0123456789abcdef'' ! d"

fun lx :: "nat \<Rightarrow> string" where
  "lx n = (if n < 16 then [hex_digit n] else lx (n div 16) @ [hex_digit (n mod 16)])"

declare lx.simps [simp del]

definition fmt_016lx :: "u64 \<Rightarrow> string" where
  "fmt_016lx w = (let ds = lx (unat w) in replicate (16 - length ds) (CHR ''0'') @ ds)"

text \<open>
  \<^verbatim>\<open>snprintf(output, n, "%016lx%016lx%016lx%016lx", a, b, c, d)\<close>: at most \<open>n - 1\<close>
  characters of the formatted text are stored (the terminating NUL is not part of the
  string).
\<close>

definition snprintf :: "nat \<Rightarrow> u64 \<Rightarrow> u64 \<Rightarrow> u64 \<Rightarrow> u64 \<Rightarrow> string" where
  "snprintf n a b c d = take (n - 1) (fmt_016lx a @ fmt_016lx b @ fmt_016lx c @ fmt_016lx d)"

text \<open>
  The body of the block loop, in its two halves.  \<open>paddedBlock_of\<close> is the block
  extraction: \<open>paddedBlock\<close> is a fresh 32-byte array that \<^verbatim>\<open>memset\<close> fills with zeros
  before \<^verbatim>\<open>memcpy\<close> copies \<open>blockLength\<close> bytes from \<^verbatim>\<open>message + blockStart\<close> into it.
\<close>

definition paddedBlock_of :: "u8 list \<Rightarrow> size_t \<Rightarrow> size_t \<Rightarrow> u8 list" where
  "paddedBlock_of message len i =
     (let blockStart = i * blockSize;
          blockEnd = blockStart + blockSize;
          blockLength = (if blockEnd > len then len - blockStart else blockSize);
          zeroed = replicate (unat blockSize) (0 :: u8)
      in memcpy zeroed (drop (unat blockStart) message) (unat blockLength))"

text \<open>
  \<open>hash_sub_blocks\<close> is the rest of the body: the eight \<^verbatim>\<open>hashBlock\<close> calls and the four
  updates of \<open>finalHash\<close>; \<^verbatim>\<open>paddedBlock + k\<close> is \<open>drop k paddedBlock\<close>.
\<close>

definition hash_sub_blocks :: "u8 list \<Rightarrow> globals \<times> u64 list \<Rightarrow> globals \<times> u64 list" where
  "hash_sub_blocks paddedBlock acc =
     (let (g, finalHash) = acc;
          (blockHash0, g0) = hashBlock paddedBlock (unat subBlockSize) g;
          (blockHash1, g1) = hashBlock (drop (unat subBlockSize) paddedBlock) (unat subBlockSize) g0;
          (blockHash2, g2) = hashBlock (drop (unat (2 * subBlockSize)) paddedBlock) (unat subBlockSize) g1;
          (blockHash3, g3) = hashBlock (drop (unat (3 * subBlockSize)) paddedBlock) (unat subBlockSize) g2;
          (blockHash4, g4) = hashBlock (drop (unat (3 * subBlockSize)) paddedBlock) (unat subBlockSize) g3;
          (blockHash5, g5) = hashBlock (drop (unat (2 * subBlockSize)) paddedBlock) (unat subBlockSize) g4;
          (blockHash6, g6) = hashBlock (drop (unat subBlockSize) paddedBlock) (unat subBlockSize) g5;
          (blockHash7, g7) = hashBlock paddedBlock (unat subBlockSize) g6;
          finalHash0 = finalHash[0 := finalHash ! 0 XOR (blockHash0 XOR blockHash4)];
          finalHash1 = finalHash0[1 := finalHash0 ! 1 XOR (blockHash1 XOR blockHash5)];
          finalHash2 = finalHash1[2 := finalHash1 ! 2 XOR (blockHash2 XOR blockHash6)];
          finalHash3 = finalHash2[3 := finalHash2 ! 3 XOR (blockHash3 XOR blockHash7)]
      in (g7, finalHash3))"

definition hash_body :: "u8 list \<Rightarrow> size_t \<Rightarrow> size_t \<Rightarrow> globals \<times> u64 list \<Rightarrow> globals \<times> u64 list" where
  "hash_body message len i acc = hash_sub_blocks (paddedBlock_of message len i) acc"

function hash_loop :: "u8 list \<Rightarrow> size_t \<Rightarrow> size_t \<Rightarrow> size_t \<Rightarrow> globals \<times> u64 list \<Rightarrow> globals \<times> u64 list" where
  "hash_loop message len numBlocks i acc =
     (if i < numBlocks then hash_loop message len numBlocks (i + 1) (hash_body message len i acc)
      else acc)"
  by pat_completeness auto
termination
proof (relation "measure (\<lambda>(message, len, numBlocks, i, acc). unat numBlocks - unat i)")
  show "wf (measure (\<lambda>(message, len, numBlocks, i, acc). unat numBlocks - unat i))"
    by simp
next
  fix message :: "u8 list" and len numBlocks i :: size_t and acc :: "globals \<times> u64 list"
  assume "i < numBlocks"
  then have lt: "unat i < unat numBlocks"
    by (simp add: word_less_nat_alt)
  moreover have "unat numBlocks < 2 ^ 64"
    using unsigned_less [of numBlocks] by simp
  ultimately have "unat i + unat (1 :: size_t) < 2 ^ LENGTH(64)"
    by simp
  then have "unat (i + 1) = unat i + unat (1 :: size_t)"
    by (simp only: unat_add_lem [THEN iffD1])
  with lt show "((message, len, numBlocks, i + 1, hash_body message len i acc),
                 (message, len, numBlocks, i, acc))
      \<in> measure (\<lambda>(message, len, numBlocks, i, acc). unat numBlocks - unat i)"
    by simp
qed

declare hash_loop.simps [simp del]

text \<open>The two statements that open \<^verbatim>\<open>hash\<close>.\<close>

definition seed :: "globals \<Rightarrow> globals" where
  "seed g = (let g1 = g\<lparr>s0 := 0x5555555555555555\<rparr> in g1\<lparr>s1 := 0xaaaaaaaaaaaaaaaa\<rparr>)"

definition numBlocks_of :: "size_t \<Rightarrow> size_t" where
  "numBlocks_of len =
     (let numBlocks = (len + blockSize - 1) div blockSize
      in if numBlocks > 0 then numBlocks else 1)"

text \<open>
  \<^verbatim>\<open>void hash(const char *message, size_t length, char *output)\<close>: \<open>message\<close> is the list
  of the bytes at the pointer, \<open>len\<close> is the argument \<open>length\<close>, and the string written to
  \<open>output\<close> is returned, with the globals as the call leaves them.  A caller passes a
  message with its length, as \<^verbatim>\<open>main\<close> does with \<^verbatim>\<open>strlen\<close>.
\<close>

definition hash :: "u8 list \<Rightarrow> size_t \<Rightarrow> globals \<Rightarrow> string \<times> globals" where
  "hash message len g =
     (let g0 = seed g;
          numBlocks = numBlocks_of len;
          (g', finalHash) = hash_loop message len numBlocks 0 (g0, [0, 0, 0, 0])
      in (snprintf 65 (finalHash ! 3) (finalHash ! 2) (finalHash ! 1) (finalHash ! 0), g'))"

section \<open>hammingDistance\<close>

text \<open>
  \<^verbatim>\<open>sscanf\<close> belongs to the C library.  The conversion \<^verbatim>\<open>%16lx\<close> is modelled as the C
  standard describes it and glibc implements it: white space is skipped; then at most 16
  characters are read that form an optional sign, an optional \<^verbatim>\<open>0x\<close> or \<^verbatim>\<open>0X\<close> and
  hexadecimal digits of either case.  Without a digit the conversion fails, with one
  exception where the model follows glibc: the \<^verbatim>\<open>0\<close> of a prefix \<^verbatim>\<open>0x\<close> counts as a digit,
  so a prefix that no digit follows is consumed and converts to 0.  The string is the
  text before the terminating NUL.
\<close>

definition isspace :: "char \<Rightarrow> bool" where
  "isspace c \<longleftrightarrow> c \<in> set [CHR 0x20, CHR 0x09, CHR 0x0A, CHR 0x0B, CHR 0x0C, CHR 0x0D]"

definition hex_value :: "char \<Rightarrow> nat option" where
  "hex_value c =
     (let n = of_char c :: nat in
      if 48 \<le> n \<and> n \<le> 57 then Some (n - 48)
      else if 97 \<le> n \<and> n \<le> 102 then Some (n - 87)
      else if 65 \<le> n \<and> n \<le> 70 then Some (n - 55)
      else None)"

fun scan_digits :: "nat \<Rightarrow> string \<Rightarrow> u64 \<Rightarrow> u64 \<times> string" where
  "scan_digits 0 s v = (v, s)"
| "scan_digits (Suc w) [] v = (v, [])"
| "scan_digits (Suc w) (c # s) v =
     (case hex_value c of
        None \<Rightarrow> (v, c # s)
      | Some d \<Rightarrow> scan_digits w s (v * 16 + of_nat d))"

definition scan_lx :: "nat \<Rightarrow> string \<Rightarrow> (u64 \<times> string) option" where
  "scan_lx width s =
     (let s1 = dropWhile isspace s;
          (neg, w1, s2) =
            (case s1 of
               [] \<Rightarrow> (False, width, s1)
             | c # r \<Rightarrow>
                 if c = CHR ''-'' then (True, width - 1, r)
                 else if c = CHR ''+'' then (False, width - 1, r)
                 else (False, width, s1));
          (prefix, w2, s3) =
            (if 2 \<le> w1 \<and> (take 2 s2 = ''0x'' \<or> take 2 s2 = ''0X'')
             then (True, w1 - 2, drop 2 s2)
             else (False, w1, s2));
          (v, rest) = scan_digits w2 s3 0;
          result = Some (if neg then - v else v, rest)
      in if prefix then result
         else case s3 of
                [] \<Rightarrow> None
              | c # r \<Rightarrow> if w2 = 0 \<or> hex_value c = None then None else result)"

text \<open>
  \<^verbatim>\<open>sscanf(hex, "%16lx%16lx%16lx%16lx", &bin[0], &bin[1], &bin[2], &bin[3])\<close>: the
  conversions run in order and each success stores into the next element; the first
  failure ends the call and leaves the remaining elements as they were.  \<open>n\<close> counts the
  conversions still to run and \<open>i\<close> is the element the next one stores into.
\<close>

fun sscanf :: "nat \<Rightarrow> nat \<Rightarrow> string \<Rightarrow> u64 list \<Rightarrow> u64 list" where
  "sscanf 0 i s bin = bin"
| "sscanf (Suc n) i s bin =
     (case scan_lx 16 s of
        None \<Rightarrow> bin
      | Some (v, rest) \<Rightarrow> sscanf n (i + 1) rest (bin[i := v]))"

text \<open>
  The \<^verbatim>\<open>while (xorVal)\<close> loop.  \<open>distance\<close> is a C \<^verbatim>\<open>int\<close>; it never exceeds 256, so the
  conversions around \<^verbatim>\<open>distance += xorVal & 1\<close> do not change a value.
\<close>

function count_loop :: "u64 \<Rightarrow> int \<Rightarrow> int" where
  "count_loop xorVal distance =
     (if xorVal \<noteq> 0 then count_loop (drop_bit 1 xorVal) (distance + uint (xorVal AND 1))
      else distance)"
  by pat_completeness auto
termination
proof (relation "measure (\<lambda>(xorVal, distance). unat xorVal)")
  show "wf (measure (\<lambda>(xorVal, distance). unat xorVal))"
    by simp
next
  fix xorVal :: u64 and distance :: int
  assume "xorVal \<noteq> 0"
  then have "unat xorVal \<noteq> 0"
    by (simp add: unat_eq_0)
  then have "unat xorVal div 2 < unat xorVal"
    by simp
  then show "((drop_bit 1 xorVal, distance + uint (xorVal AND 1)), (xorVal, distance))
      \<in> measure (\<lambda>(xorVal, distance). unat xorVal)"
    by (simp add: drop_bit_eq_div unat_div)
qed

declare count_loop.simps [simp del]

text \<open>The \<^verbatim>\<open>for (int i = 0; i < 4; i++)\<close> loop around it.\<close>

function distance_loop :: "u64 list \<Rightarrow> u64 list \<Rightarrow> nat \<Rightarrow> int \<Rightarrow> int" where
  "distance_loop bin1 bin2 i distance =
     (if i < 4 then distance_loop bin1 bin2 (i + 1) (count_loop (bin1 ! i XOR bin2 ! i) distance)
      else distance)"
  by pat_completeness auto
termination
  by (relation "measure (\<lambda>(bin1, bin2, i, distance). 4 - i)") auto

declare distance_loop.simps [simp del]

text \<open>
  The only error the specification names.  \<^verbatim>\<open>hammingDistance\<close> has one exit, its final
  \<^verbatim>\<open>return distance\<close>; the values \<^verbatim>\<open>sscanf\<close> returns are dropped.
\<close>

datatype error = MalformedDigest

text \<open>
  \<^verbatim>\<open>int hammingDistance(const char *hex1, const char *hex2)\<close>.  The arrays \<open>bin1\<close> and
  \<open>bin2\<close> are not initialised, so the four words each holds before \<^verbatim>\<open>sscanf\<close> are further
  arguments of the model.
\<close>

definition hammingDistance :: "string \<Rightarrow> string \<Rightarrow> u64 list \<Rightarrow> u64 list \<Rightarrow> error + int" where
  "hammingDistance hex1 hex2 bin1 bin2 =
     (let bin1' = sscanf 4 0 hex1 bin1;
          bin2' = sscanf 4 0 hex2 bin2
      in Inr (distance_loop bin1' bin2' 0 0))"

section \<open>The specification's terms\<close>

text \<open>
  The definitions of this section follow the wording of the specification; the theorems
  compare them with the functions above.

  Block Hasher: the Bit Mixer called once for each byte of a list, in order, on one
  advancing state; the outputs in call order and the state after the last call.
\<close>

fun mix_calls :: "u8 list \<Rightarrow> globals \<Rightarrow> u64 list \<times> globals" where
  "mix_calls [] g = ([], g)"
| "mix_calls (b # bs) g =
     (let (out, g1) = Xorshift128X (ucast b) g;
          (outs, g2) = mix_calls bs g1
      in (out # outs, g2))"

text \<open>
  Digest Builder: the Block Hasher called once for each sub-block of a list, in order,
  on one advancing state; sub-block \<open>k\<close> of a block is its 8 bytes at offset \<open>8 * k\<close>.
\<close>

fun hashBlock_calls :: "u8 list list \<Rightarrow> globals \<Rightarrow> u64 list \<times> globals" where
  "hashBlock_calls [] g = ([], g)"
| "hashBlock_calls (sub # subs) g =
     (let (h, g1) = hashBlock sub (length sub) g;
          (hs, g2) = hashBlock_calls subs g1
      in (h # hs, g2))"

definition sub_block :: "u8 list \<Rightarrow> nat \<Rightarrow> u8 list" where
  "sub_block block k = take 8 (drop (8 * k) block)"

text \<open>
  Digest Builder: the number of blocks of a message of \<open>L\<close> bytes, \<open>ceil(L / 32)\<close> with a
  floor of 1, and block \<open>i\<close>, the slice \<open>[i * 32, i * 32 + 32)\<close> of the message right-padded
  with zero bytes.
\<close>

definition numBlocks_spec :: "nat \<Rightarrow> nat" where
  "numBlocks_spec L = max 1 (nat \<lceil>real L / 32\<rceil>)"

definition padded_slice :: "u8 list \<Rightarrow> nat \<Rightarrow> u8 list" where
  "padded_slice message i = take 32 (drop (i * 32) message @ replicate 32 0)"

text \<open>
  Digest: a 64-bit word rendered as 16 lowercase hexadecimal digits, most significant
  first: the digit at position \<open>k\<close> from the left has weight \<open>16 ^ (15 - k)\<close>.
\<close>

definition hex16 :: "u64 \<Rightarrow> string" where
  "hex16 w = map (\<lambda>k. hex_digit (unat w div 16 ^ (15 - k) mod 16)) [0..<16]"

text \<open>The same for any number of digits, for the proof about \<^verbatim>\<open>%016lx\<close>.\<close>

definition digits :: "nat \<Rightarrow> nat \<Rightarrow> string" where
  "digits k n = map (\<lambda>j. hex_digit (n div 16 ^ (k - 1 - j) mod 16)) [0..<k]"

text \<open>
  Distance Metric: a well-formed digest is 64 hexadecimal digits; it is read as four
  consecutive groups of 16 digits, each a 64-bit value with the most significant digit
  first; the distance of two digests is the number of set bits in the XOR of the two
  values, summed over the four groups.
\<close>

definition well_formed_digest :: "string \<Rightarrow> bool" where
  "well_formed_digest d \<longleftrightarrow> length d = 64 \<and> (\<forall>c \<in> set d. c \<in> set ''0123456789abcdefABCDEF'')"

definition digit_value :: "char \<Rightarrow> nat" where
  "digit_value c = (case hex_value c of Some d \<Rightarrow> d | None \<Rightarrow> 0)"

definition group_word :: "string \<Rightarrow> nat \<Rightarrow> u64" where
  "group_word d k = foldl (\<lambda>v c. v * 16 + of_nat (digit_value c)) 0 (take 16 (drop (16 * k) d))"

definition popcount :: "u64 \<Rightarrow> nat" where
  "popcount w = length (filter (bit w) [0..<64])"

definition bit_distance :: "string \<Rightarrow> string \<Rightarrow> nat" where
  "bit_distance d1 d2 =
     sum_list (map (\<lambda>k. popcount (group_word d1 k XOR group_word d2 k)) [0..<4])"

section \<open>Xorshift128X: output and state update\<close>

text \<open>
  C2, as stated: one call returns \<open>s1 + s0\<close> and leaves \<open>s0' = s0 XOR (x << 30)\<close> and
  \<open>s1' = b XOR s0 XOR (b >> 18) XOR (s0 >> 5)\<close> with \<open>b = s1 XOR (s1 << 23)\<close>.  The code
  stores \<open>a XOR c\<close> into \<open>s0\<close>, where \<open>a\<close> is the old \<open>s1\<close>: from \<open>s0 = 1\<close>, \<open>s1 = 0\<close> and
  \<open>x = 0\<close> the new \<open>s0\<close> is 0, while \<open>s0 XOR (x << 30)\<close> is 1.
\<close>

theorem Xorshift128X_s0_counterexample:
  "s0 (snd (Xorshift128X 0 \<lparr>s0 = 1, s1 = 0\<rparr>)) = 0 \<and>
   s0 (snd (Xorshift128X 0 \<lparr>s0 = 1, s1 = 0\<rparr>)) \<noteq> s0 \<lparr>s0 = 1, s1 = 0\<rparr> XOR push_bit 30 0"
  by (simp add: Xorshift128X_def)

text \<open>
  C2, amended: for every state \<open>(s0, s1)\<close> and every 64-bit input \<open>x\<close>, one call returns
  \<open>s1 + s0\<close> (addition modulo \<open>2^64\<close>) and leaves \<open>s0' = s1 XOR (x << 30)\<close> and
  \<open>s1' = b XOR s1 XOR (b >> 18) XOR (s1 >> 5)\<close>, where \<open>b = s0 XOR (s0 << 23)\<close> is computed
  from the old \<open>s0\<close> and the other operands are the old \<open>s1\<close>; the left shift by 30 drops
  the bits that leave the 64-bit word.
\<close>

theorem Xorshift128X_update:
  "Xorshift128X x g =
     (let b = s0 g XOR push_bit 23 (s0 g)
      in (s1 g + s0 g,
          \<lparr>s0 = s1 g XOR push_bit 30 x,
           s1 = b XOR s1 g XOR drop_bit 18 b XOR drop_bit 5 (s1 g)\<rparr>)) \<and>
   unat (fst (Xorshift128X x g)) = (unat (s1 g) + unat (s0 g)) mod 2 ^ 64 \<and>
   unat (push_bit 30 x) = (unat x * 2 ^ 30) mod 2 ^ 64"
proof (intro conjI)
  show "Xorshift128X x g =
     (let b = s0 g XOR push_bit 23 (s0 g)
      in (s1 g + s0 g,
          \<lparr>s0 = s1 g XOR push_bit 30 x,
           s1 = b XOR s1 g XOR drop_bit 18 b XOR drop_bit 5 (s1 g)\<rparr>))"
    by (cases g) (simp add: Xorshift128X_def Let_def)
  show "unat (fst (Xorshift128X x g)) = (unat (s1 g) + unat (s0 g)) mod 2 ^ 64"
    by (simp add: Xorshift128X_def Let_def unat_word_ariths)
  show "unat (push_bit 30 x) = (unat x * 2 ^ 30) mod 2 ^ 64"
    by (simp add: push_bit_eq_mult unat_word_ariths)
qed

section \<open>hashBlock: two traversals on one state\<close>

lemma mix_calls_append:
  "mix_calls (xs @ ys) g =
     (fst (mix_calls xs g) @ fst (mix_calls ys (snd (mix_calls xs g))),
      snd (mix_calls ys (snd (mix_calls xs g))))"
  by (induction xs arbitrary: g) (simp_all add: split_beta)

lemma length_mix_calls: "length (fst (mix_calls bs g)) = length bs"
  by (induction bs arbitrary: g) (simp_all add: split_beta)

lemma hashBlock_loop1_mix_calls:
  "i \<le> len \<Longrightarrow> len \<le> length block \<Longrightarrow>
   hashBlock_loop1 block len i (r, g) =
     (foldl (XOR) r (fst (mix_calls (drop i (take len block)) g)),
      snd (mix_calls (drop i (take len block)) g))"
proof (induction block len i "(r, g)" arbitrary: r g rule: hashBlock_loop1.induct)
  case (1 block len i r g)
  show ?case
  proof (cases "i < len")
    case True
    with "1.prems" have d: "drop i (take len block) = block ! i # drop (Suc i) (take len block)"
      by (simp add: Cons_nth_drop_Suc [symmetric])
    obtain out g1 where x: "Xorshift128X (ucast (block ! i)) g = (out, g1)"
      by (cases "Xorshift128X (ucast (block ! i)) g")
    from True "1.prems" have "hashBlock_loop1 block len (i + 1) (r XOR out, g1) =
        (foldl (XOR) (r XOR out) (fst (mix_calls (drop (i + 1) (take len block)) g1)),
         snd (mix_calls (drop (i + 1) (take len block)) g1))"
      using "1.hyps" [OF True x [symmetric] refl] by simp
    with True x d show ?thesis
      by (simp add: hashBlock_loop1.simps [of block len i] split_beta)
  next
    case False
    with "1.prems" have "i = len" by simp
    then show ?thesis by (simp add: hashBlock_loop1.simps [of block len len])
  qed
qed

lemma hashBlock_loop2_mix_calls:
  "j \<le> length block \<Longrightarrow>
   hashBlock_loop2 block j (r, g) =
     (foldl (XOR) r (fst (mix_calls (rev (take j block)) g)),
      snd (mix_calls (rev (take j block)) g))"
proof (induction j arbitrary: r g)
  case 0
  show ?case by simp
next
  case (Suc j)
  then have "rev (take (Suc j) block) = block ! j # rev (take j block)"
    by (simp add: take_Suc_conv_app_nth)
  with Suc show ?case
    by (simp add: split_beta)
qed

lemma hashBlock_eq:
  assumes "n \<le> length block"
  shows "hashBlock block n g =
     (foldl (XOR) 0 (fst (mix_calls (take n block @ rev (take n block)) g)),
      snd (mix_calls (take n block @ rev (take n block)) g))"
  using assms
  by (simp add: hashBlock_def hashBlock_loop1_mix_calls hashBlock_loop2_mix_calls mix_calls_append)

lemma hashBlock_take:
  "n \<le> length block \<Longrightarrow> hashBlock block n g = hashBlock (take n block) n g"
  by (simp add: hashBlock_eq)

text \<open>
  C3: \<^verbatim>\<open>hashBlock(block, n)\<close>, with \<open>n\<close> bytes readable at \<open>block\<close>, starts from
  \<open>result = 0\<close> and XORs into it the outputs of the mixer called on the \<open>n\<close> bytes first to
  last and then on the same bytes last to first, each byte widened to 64 bits, on one
  advancing state, which it returns; these are exactly \<open>2 * n\<close> mixer calls.  This holds
  for every \<open>n\<close>, so in particular for \<open>n \<le> 8\<close>.
\<close>

theorem hashBlock_mix_calls:
  "n \<le> length block \<Longrightarrow>
   (let bytes = take n block;
        (outs, g') = mix_calls (bytes @ rev bytes) g
    in hashBlock block n g = (foldl (XOR) 0 outs, g') \<and> length outs = 2 * n)"
  using length_mix_calls [of "take n block @ rev (take n block)" g]
  by (simp add: hashBlock_eq split_beta)

theorem hashBlock_mix_calls_witness:
  "(2 :: nat) \<le> length [0x61, 0x62 :: u8] \<and>
   hashBlock [0x61, 0x62] 2 \<lparr>s0 = 0x5555555555555555, s1 = 0xaaaaaaaaaaaaaaaa\<rparr> =
     (foldl (XOR) 0
        [0xffffffffffffffff, 0xfaaaeab2ea800009, 0xf1603cf7c04e1014, 0xa94afc63a7f618df],
      \<lparr>s0 = 0x07eaff42a77d5e2a, s1 = 0x22ea60ba5aeb68d0\<rparr>) \<and>
   length [0xffffffffffffffff, 0xfaaaeab2ea800009, 0xf1603cf7c04e1014, 0xa94afc63a7f618df :: u64] =
     2 * 2"
  using hashBlock_mix_calls
    [of 2 "[0x61, 0x62]" "\<lparr>s0 = 0x5555555555555555, s1 = 0xaaaaaaaaaaaaaaaa\<rparr>"]
  by (simp add: Xorshift128X_def)

section \<open>The all-zero block, evaluated\<close>

text \<open>
  The mixer and \<^verbatim>\<open>hashBlock\<close> on explicit states, in a form the simplifier evaluates one
  call at a time, and the eight \<^verbatim>\<open>hashBlock\<close> calls of the all-zero block from the seed.
\<close>

lemma mix_calls_rec:
  "mix_calls (x # xs) \<lparr>s0 = a, s1 = b\<rparr> =
     (case mix_calls xs
             \<lparr>s0 = b XOR push_bit 30 (ucast x),
              s1 = (a XOR push_bit 23 a) XOR b XOR drop_bit 18 (a XOR push_bit 23 a) XOR
                   drop_bit 5 b\<rparr> of
        (outs, g2) \<Rightarrow> ((b + a) # outs, g2))"
  by (simp add: Xorshift128X_def Let_def)

lemma hashBlock_case:
  "n \<le> length block \<Longrightarrow>
   hashBlock block n g =
     (case mix_calls (take n block @ rev (take n block)) g of
        (outs, g') \<Rightarrow> (foldl (XOR) 0 outs, g'))"
  by (simp add: hashBlock_eq split_beta)

lemma subBlockSize_values:
  "unat subBlockSize = 8" "unat (2 * subBlockSize) = 16" "unat (3 * subBlockSize) = 24"
  "unat blockSize = 32"
  by (simp_all add: subBlockSize_def blockSize_def)

lemma replicate_8: "replicate 8 x = [x, x, x, x, x, x, x, x]"
  by (simp add: numeral_eq_Suc)

lemma hashBlock_zero_block:
  "8 \<le> n \<Longrightarrow> hashBlock (replicate n 0) 8 g = hashBlock [0, 0, 0, 0, 0, 0, 0, 0] 8 g"
  using hashBlock_take [of 8 "replicate n 0" g]
  by (simp add: replicate_8 min_def)

lemma mix_calls_zero_seed:
  "mix_calls [0, 0, 0, 0, 0, 0, 0, 0, 0, 0, 0, 0, 0, 0, 0, 0] \<lparr>s0 = 0x5555555555555555, s1 = 0xaaaaaaaaaaaaaaaa\<rparr> =
     ([0xffffffffffffffff,
       0xfaaaeaaaaa800009,
       0xfd803e0000540014,
       0xb56bfd5aa5fc095f,
       0xb2974a05807aa6ff,
       0xaff2c64f0727c8f7,
       0xfff2c72a9c5fa18f,
       0x24da9670d55c36ef,
       0x3d1cbaba4a25a5f4,
       0x605539e76ea4c478,
       0x077ba3a075ddc235,
       0xb374296a93eb059c,
       0x7a2ee02b895e66fd,
       0x0e4a0146fbad4ad9,
       0xbaaa384824399836,
       0x0ce0c3a73ac81e54],
      \<lparr>s0 = 0xdfb1fc5c3090e1e7, s1 = 0x51e78d411a9615a8\<rparr>)"
  by (simp add: mix_calls_rec del: mix_calls.simps(2))

lemma hashBlock_zero_0:
  "hashBlock [0, 0, 0, 0, 0, 0, 0, 0] 8 \<lparr>s0 = 0x5555555555555555, s1 = 0xaaaaaaaaaaaaaaaa\<rparr> =
     (0xa09b180a903c03b6, \<lparr>s0 = 0xdfb1fc5c3090e1e7, s1 = 0x51e78d411a9615a8\<rparr>)"
  by (simp add: hashBlock_case mix_calls_rec del: mix_calls.simps(2))

lemma hashBlock_zero_1:
  "hashBlock [0, 0, 0, 0, 0, 0, 0, 0] 8 \<lparr>s0 = 0xdfb1fc5c3090e1e7, s1 = 0x51e78d411a9615a8\<rparr> =
     (0xbf08635fc48718f2, \<lparr>s0 = 0x50e2c6fa08450771, s1 = 0x4a164ea738ed802d\<rparr>)"
  by (simp add: hashBlock_case mix_calls_rec del: mix_calls.simps(2))

lemma hashBlock_zero_2:
  "hashBlock [0, 0, 0, 0, 0, 0, 0, 0] 8 \<lparr>s0 = 0x50e2c6fa08450771, s1 = 0x4a164ea738ed802d\<rparr> =
     (0x2be66d59a7fc96bc, \<lparr>s0 = 0x9dc054f9cc626a25, s1 = 0xba280482c9c075d5\<rparr>)"
  by (simp add: hashBlock_case mix_calls_rec del: mix_calls.simps(2))

lemma hashBlock_zero_3:
  "hashBlock [0, 0, 0, 0, 0, 0, 0, 0] 8 \<lparr>s0 = 0x9dc054f9cc626a25, s1 = 0xba280482c9c075d5\<rparr> =
     (0xe9e46f0b06542d7e, \<lparr>s0 = 0x3eb77f3073608d27, s1 = 0x29d75d65151bf04e\<rparr>)"
  by (simp add: hashBlock_case mix_calls_rec del: mix_calls.simps(2))

lemma hashBlock_zero_4:
  "hashBlock [0, 0, 0, 0, 0, 0, 0, 0] 8 \<lparr>s0 = 0x3eb77f3073608d27, s1 = 0x29d75d65151bf04e\<rparr> =
     (0x2251274a1421add9, \<lparr>s0 = 0x271b9e5a26ad2292, s1 = 0x1feeafdce356f54b\<rparr>)"
  by (simp add: hashBlock_case mix_calls_rec del: mix_calls.simps(2))

lemma hashBlock_zero_5:
  "hashBlock [0, 0, 0, 0, 0, 0, 0, 0] 8 \<lparr>s0 = 0x271b9e5a26ad2292, s1 = 0x1feeafdce356f54b\<rparr> =
     (0x29f789a06e7ec71d, \<lparr>s0 = 0x56f47a34854eee8f, s1 = 0x67ddac50e4a7912d\<rparr>)"
  by (simp add: hashBlock_case mix_calls_rec del: mix_calls.simps(2))

lemma hashBlock_zero_6:
  "hashBlock [0, 0, 0, 0, 0, 0, 0, 0] 8 \<lparr>s0 = 0x56f47a34854eee8f, s1 = 0x67ddac50e4a7912d\<rparr> =
     (0x62169a39d7b84f8e, \<lparr>s0 = 0x6c3f40cab06281ab, s1 = 0xb2605f88fd0c3c31\<rparr>)"
  by (simp add: hashBlock_case mix_calls_rec del: mix_calls.simps(2))

lemma hashBlock_zero_7:
  "hashBlock [0, 0, 0, 0, 0, 0, 0, 0] 8 \<lparr>s0 = 0x6c3f40cab06281ab, s1 = 0xb2605f88fd0c3c31\<rparr> =
     (0x9465d30d9ed6becb, \<lparr>s0 = 0x6b168fd5bcfdace8, s1 = 0xb8364e5d9f33fab4\<rparr>)"
  by (simp add: hashBlock_case mix_calls_rec del: mix_calls.simps(2))

lemma hash_sub_blocks_zero:
  "hash_sub_blocks (replicate 32 0) (\<lparr>s0 = 0x5555555555555555, s1 = 0xaaaaaaaaaaaaaaaa\<rparr>, [0, 0, 0, 0]) =
     (\<lparr>s0 = 0x6b168fd5bcfdace8, s1 = 0xb8364e5d9f33fab4\<rparr>,
      [0x82ca3f40841dae6f, 0x96ffeaffaaf9dfef, 0x49f0f7607044d932, 0x7d81bc06988293b5])"
  by (simp add: hash_sub_blocks_def subBlockSize_values hashBlock_zero_block
      hashBlock_zero_0 hashBlock_zero_1 hashBlock_zero_2 hashBlock_zero_3
      hashBlock_zero_4 hashBlock_zero_5 hashBlock_zero_6 hashBlock_zero_7)


lemma seed_eq: "seed g = \<lparr>s0 = 0x5555555555555555, s1 = 0xaaaaaaaaaaaaaaaa\<rparr>"
  by (cases g) (simp add: seed_def)

lemma numBlocks_of_0: "numBlocks_of 0 = 1"
  by (simp add: numBlocks_of_def blockSize_def subBlockSize_def)

lemma hash_loop_once: "hash_loop message len 1 0 acc = hash_body message len 0 acc"
  by (simp add: hash_loop.simps [of message len 1 0] hash_loop.simps [of message len 1 1])

lemma paddedBlock_of_empty: "paddedBlock_of [] 0 0 = replicate 32 0"
  by (simp add: paddedBlock_of_def memcpy_def blockSize_def subBlockSize_def)

lemma fmt_empty:
  "fmt_016lx 0x7d81bc06988293b5 = ''7d81bc06988293b5''"
  "fmt_016lx 0x49f0f7607044d932 = ''49f0f7607044d932''"
  "fmt_016lx 0x96ffeaffaaf9dfef = ''96ffeaffaaf9dfef''"
  "fmt_016lx 0x82ca3f40841dae6f = ''82ca3f40841dae6f''"
  by (simp_all add: fmt_016lx_def lx.simps hex_digit_def)

lemma hash_empty:
  "hash [] 0 g =
     (''7d81bc06988293b549f0f7607044d93296ffeaffaaf9dfef82ca3f40841dae6f'',
      \<lparr>s0 = 0x6b168fd5bcfdace8, s1 = 0xb8364e5d9f33fab4\<rparr>)"
  by (simp add: hash_def seed_eq numBlocks_of_0 hash_loop_once hash_body_def paddedBlock_of_empty
      hash_sub_blocks_zero snprintf_def fmt_empty)

section \<open>One block: eight hashBlock calls\<close>

lemma hashBlock_sub_block:
  assumes "length paddedBlock = 32" and "k < 4"
  shows "hashBlock (drop (8 * k) paddedBlock) 8 g =
         hashBlock (sub_block paddedBlock k) (length (sub_block paddedBlock k)) g"
proof -
  from assms have "8 \<le> length (drop (8 * k) paddedBlock)"
    by simp
  then have "hashBlock (drop (8 * k) paddedBlock) 8 g =
      hashBlock (take 8 (drop (8 * k) paddedBlock)) 8 g"
    by (rule hashBlock_take)
  moreover from assms have "length (sub_block paddedBlock k) = 8"
    by (simp add: sub_block_def)
  ultimately show ?thesis
    by (simp add: sub_block_def)
qed

text \<open>
  C5: on a 32-byte padded block the loop body makes exactly eight \<^verbatim>\<open>hashBlock\<close> calls on
  one advancing state: sub-blocks 0, 1, 2, 3 and then 3, 2, 1, 0, so that the fifth
  call hashes the bytes of the fourth.  With \<open>hs\<close> the eight results in call order,
  \<open>forward(sub k) = hs ! k\<close> and \<open>reverse(sub k) = hs ! (7 - k)\<close>, and the accumulators
  become \<open>h0 XOR forward(sub0) XOR reverse(sub3)\<close>, \<open>h1 XOR forward(sub1) XOR reverse(sub2)\<close>,
  \<open>h2 XOR forward(sub2) XOR reverse(sub1)\<close> and \<open>h3 XOR forward(sub3) XOR reverse(sub0)\<close>.
\<close>

theorem hash_sub_blocks_calls:
  "length paddedBlock = 32 \<Longrightarrow>
   (let sub = sub_block paddedBlock;
        (hs, g') = hashBlock_calls [sub 0, sub 1, sub 2, sub 3, sub 3, sub 2, sub 1, sub 0] g
    in length hs = 8 \<and>
       hash_sub_blocks paddedBlock (g, finalHash) =
         (g', finalHash
            [0 := finalHash ! 0 XOR (hs ! 0 XOR hs ! 4),
             1 := finalHash ! 1 XOR (hs ! 1 XOR hs ! 5),
             2 := finalHash ! 2 XOR (hs ! 2 XOR hs ! 6),
             3 := finalHash ! 3 XOR (hs ! 3 XOR hs ! 7)]))"
proof -
  assume len: "length paddedBlock = 32"
  have e0: "hashBlock paddedBlock 8 g =
      hashBlock (sub_block paddedBlock 0) (length (sub_block paddedBlock 0)) g" for g
    using hashBlock_sub_block [OF len, of 0 g] by simp
  have e1: "hashBlock (drop 8 paddedBlock) 8 g =
      hashBlock (sub_block paddedBlock 1) (length (sub_block paddedBlock 1)) g" for g
    using hashBlock_sub_block [OF len, of 1 g] by simp
  have e2: "hashBlock (drop 16 paddedBlock) 8 g =
      hashBlock (sub_block paddedBlock 2) (length (sub_block paddedBlock 2)) g" for g
    using hashBlock_sub_block [OF len, of 2 g] by simp
  have e3: "hashBlock (drop 24 paddedBlock) 8 g =
      hashBlock (sub_block paddedBlock 3) (length (sub_block paddedBlock 3)) g" for g
    using hashBlock_sub_block [OF len, of 3 g] by simp
  have u: "unat subBlockSize = 8" "unat (2 * subBlockSize) = 16" "unat (3 * subBlockSize) = 24"
    by (simp_all add: subBlockSize_def)
  show ?thesis
    by (simp add: hash_sub_blocks_def u split_beta Let_def e0 e1 e2 e3)
qed

theorem hash_sub_blocks_calls_witness:
  "length (replicate 32 (0 :: u8)) = 32 \<and>
   hashBlock_calls
     [sub_block (replicate 32 0) 0, sub_block (replicate 32 0) 1, sub_block (replicate 32 0) 2,
      sub_block (replicate 32 0) 3, sub_block (replicate 32 0) 3, sub_block (replicate 32 0) 2,
      sub_block (replicate 32 0) 1, sub_block (replicate 32 0) 0]
     \<lparr>s0 = 0x5555555555555555, s1 = 0xaaaaaaaaaaaaaaaa\<rparr> =
     ([0xa09b180a903c03b6, 0xbf08635fc48718f2,
       0x2be66d59a7fc96bc, 0xe9e46f0b06542d7e,
       0x2251274a1421add9, 0x29f789a06e7ec71d,
       0x62169a39d7b84f8e, 0x9465d30d9ed6becb],
      \<lparr>s0 = 0x6b168fd5bcfdace8, s1 = 0xb8364e5d9f33fab4\<rparr>) \<and>
   hash_sub_blocks (replicate 32 0)
     (\<lparr>s0 = 0x5555555555555555, s1 = 0xaaaaaaaaaaaaaaaa\<rparr>, [0, 0, 0, 0]) =
     (\<lparr>s0 = 0x6b168fd5bcfdace8, s1 = 0xb8364e5d9f33fab4\<rparr>,
      [0x82ca3f40841dae6f, 0x96ffeaffaaf9dfef, 0x49f0f7607044d932, 0x7d81bc06988293b5])"
proof -
  have subs: "sub_block (replicate 32 0) 0 = [0, 0, 0, 0, 0, 0, 0, 0]"
    "sub_block (replicate 32 0) 1 = [0, 0, 0, 0, 0, 0, 0, 0]"
    "sub_block (replicate 32 0) 2 = [0, 0, 0, 0, 0, 0, 0, 0]"
    "sub_block (replicate 32 0) 3 = [0, 0, 0, 0, 0, 0, 0, 0]"
    by (simp_all add: sub_block_def replicate_8)
  have len: "length [0, 0, 0, 0, 0, 0, 0, 0 :: u8] = 8"
    by simp
  have calls: "hashBlock_calls
     [sub_block (replicate 32 0) 0, sub_block (replicate 32 0) 1, sub_block (replicate 32 0) 2,
      sub_block (replicate 32 0) 3, sub_block (replicate 32 0) 3, sub_block (replicate 32 0) 2,
      sub_block (replicate 32 0) 1, sub_block (replicate 32 0) 0]
     \<lparr>s0 = 0x5555555555555555, s1 = 0xaaaaaaaaaaaaaaaa\<rparr> =
     ([0xa09b180a903c03b6, 0xbf08635fc48718f2,
       0x2be66d59a7fc96bc, 0xe9e46f0b06542d7e,
       0x2251274a1421add9, 0x29f789a06e7ec71d,
       0x62169a39d7b84f8e, 0x9465d30d9ed6becb],
      \<lparr>s0 = 0x6b168fd5bcfdace8, s1 = 0xb8364e5d9f33fab4\<rparr>)"
    by (simp only: subs len hashBlock_calls.simps Let_def prod.case
        hashBlock_zero_0 hashBlock_zero_1 hashBlock_zero_2 hashBlock_zero_3
        hashBlock_zero_4 hashBlock_zero_5 hashBlock_zero_6 hashBlock_zero_7)
  have h: "length (replicate 32 (0 :: u8)) = 32"
    by simp
  from hash_sub_blocks_calls
    [OF h, of "\<lparr>s0 = 0x5555555555555555, s1 = 0xaaaaaaaaaaaaaaaa\<rparr>" "[0, 0, 0, 0]",
     unfolded Let_def calls prod.case]
  have "hash_sub_blocks (replicate 32 0)
     (\<lparr>s0 = 0x5555555555555555, s1 = 0xaaaaaaaaaaaaaaaa\<rparr>, [0, 0, 0, 0]) =
     (\<lparr>s0 = 0x6b168fd5bcfdace8, s1 = 0xb8364e5d9f33fab4\<rparr>,
      [0x82ca3f40841dae6f, 0x96ffeaffaaf9dfef, 0x49f0f7607044d932, 0x7d81bc06988293b5])"
    by simp
  with calls show ?thesis
    by simp
qed

text \<open>
  The same for the message of the one byte \<^verbatim>\<open>0x61\<close>: its only block is that byte followed
  by 31 zero bytes.
\<close>

lemma hashBlock_a_block:
  "hashBlock (0x61 # replicate 31 0) 8 g = hashBlock [0x61, 0, 0, 0, 0, 0, 0, 0] 8 g"
  using hashBlock_take [of 8 "0x61 # replicate 31 0" g]
  by (simp add: numeral_eq_Suc)

lemma hashBlock_a_0:
  "hashBlock [0x61, 0, 0, 0, 0, 0, 0, 0] 8 \<lparr>s0 = 0x5555555555555555, s1 = 0xaaaaaaaaaaaaaaaa\<rparr> =
     (0x60127de2c5687cd7, \<lparr>s0 = 0x4693c23f905d3790, s1 = 0x50ebb3ab253e883f\<rparr>)"
  by (simp add: hashBlock_case mix_calls_rec del: mix_calls.simps(2))

lemma hashBlock_a_1:
  "hashBlock [0, 0, 0, 0, 0, 0, 0, 0] 8 \<lparr>s0 = 0x4693c23f905d3790, s1 = 0x50ebb3ab253e883f\<rparr> =
     (0x3e67183f5e8a3c45, \<lparr>s0 = 0xfb98df678d9ecba1, s1 = 0xfdfe1d5d9093a594\<rparr>)"
  by (simp add: hashBlock_case mix_calls_rec del: mix_calls.simps(2))

lemma hashBlock_a_2:
  "hashBlock [0, 0, 0, 0, 0, 0, 0, 0] 8 \<lparr>s0 = 0xfb98df678d9ecba1, s1 = 0xfdfe1d5d9093a594\<rparr> =
     (0xea0570dc070250b7, \<lparr>s0 = 0x6228a55b09eea8de, s1 = 0x2f6b7dff8677f5df\<rparr>)"
  by (simp add: hashBlock_case mix_calls_rec del: mix_calls.simps(2))

lemma hashBlock_a_3:
  "hashBlock [0, 0, 0, 0, 0, 0, 0, 0] 8 \<lparr>s0 = 0x6228a55b09eea8de, s1 = 0x2f6b7dff8677f5df\<rparr> =
     (0xc695e9ebfabf3cac, \<lparr>s0 = 0x75ee64f8e616c296, s1 = 0x821f485559d615a3\<rparr>)"
  by (simp add: hashBlock_case mix_calls_rec del: mix_calls.simps(2))

lemma hashBlock_a_4:
  "hashBlock [0, 0, 0, 0, 0, 0, 0, 0] 8 \<lparr>s0 = 0x75ee64f8e616c296, s1 = 0x821f485559d615a3\<rparr> =
     (0x25adc7e18629dd4b, \<lparr>s0 = 0x5e1b326bc6b12065, s1 = 0x8d067802ef46b397\<rparr>)"
  by (simp add: hashBlock_case mix_calls_rec del: mix_calls.simps(2))

lemma hashBlock_a_5:
  "hashBlock [0, 0, 0, 0, 0, 0, 0, 0] 8 \<lparr>s0 = 0x5e1b326bc6b12065, s1 = 0x8d067802ef46b397\<rparr> =
     (0x0f80f7dbfe589cfb, \<lparr>s0 = 0xf8969f6503e41b5a, s1 = 0x5882227b8868d965\<rparr>)"
  by (simp add: hashBlock_case mix_calls_rec del: mix_calls.simps(2))

lemma hashBlock_a_6:
  "hashBlock [0, 0, 0, 0, 0, 0, 0, 0] 8 \<lparr>s0 = 0xf8969f6503e41b5a, s1 = 0x5882227b8868d965\<rparr> =
     (0xd525c7970bc14db1, \<lparr>s0 = 0x6d4736ddaf8c176f, s1 = 0x8e4ad2e67b552320\<rparr>)"
  by (simp add: hashBlock_case mix_calls_rec del: mix_calls.simps(2))

lemma hashBlock_a_7:
  "hashBlock [0x61, 0, 0, 0, 0, 0, 0, 0] 8 \<lparr>s0 = 0x6d4736ddaf8c176f, s1 = 0x8e4ad2e67b552320\<rparr> =
     (0xd83591d942fda212, \<lparr>s0 = 0xd05dfdbebf0c6f3b, s1 = 0x95faf2e06f4c25f0\<rparr>)"
  by (simp add: hashBlock_case mix_calls_rec del: mix_calls.simps(2))

lemma hash_sub_blocks_a:
  "hash_sub_blocks (0x61 # replicate 31 0) (\<lparr>s0 = 0x5555555555555555, s1 = 0xaaaaaaaaaaaaaaaa\<rparr>, [0, 0, 0, 0]) =
     (\<lparr>s0 = 0xd05dfdbebf0c6f3b, s1 = 0x95faf2e06f4c25f0\<rparr>,
      [0x45bfba034341a19c, 0x31e7efe4a0d2a0be, 0x3f20b74b0cc31d06, 0x1ea07832b8429ebe])"
  by (simp add: hash_sub_blocks_def subBlockSize_values hashBlock_a_block hashBlock_zero_block
      hashBlock_a_0 hashBlock_a_1 hashBlock_a_2 hashBlock_a_3
      hashBlock_a_4 hashBlock_a_5 hashBlock_a_6 hashBlock_a_7)

lemma numBlocks_of_1: "numBlocks_of 1 = 1"
  by (simp add: numBlocks_of_def blockSize_def subBlockSize_def)

lemma paddedBlock_of_a: "paddedBlock_of [0x61] 1 0 = 0x61 # replicate 31 0"
  by (simp add: paddedBlock_of_def memcpy_def blockSize_def subBlockSize_def)

lemma hash_a_state:
  "snd (hash [0x61] 1 g) = \<lparr>s0 = 0xd05dfdbebf0c6f3b, s1 = 0x95faf2e06f4c25f0\<rparr>"
  by (simp add: hash_def seed_eq numBlocks_of_1 hash_loop_once hash_body_def paddedBlock_of_a
      hash_sub_blocks_a)

section \<open>The state around a call of hash\<close>

lemma hash_any_state: "hash message len g = hash message len g'"
  by (simp add: hash_def seed_eq)

text \<open>
  C7: \<^verbatim>\<open>hash\<close> first stores the seeds \<^verbatim>\<open>0x5555555555555555\<close> and \<^verbatim>\<open>0xaaaaaaaaaaaaaaaa\<close> into
  the two state words, whatever they held, and runs its block loop from there; so the
  digest of a message is the same string for every pre-call state, also for the state an
  earlier call of \<^verbatim>\<open>hash\<close> on any other message left behind.
\<close>

theorem hash_reproducible:
  "seed g = \<lparr>s0 = 0x5555555555555555, s1 = 0xaaaaaaaaaaaaaaaa\<rparr> \<and>
   hash message len g =
     (let (g', finalHash) =
            hash_loop message len (numBlocks_of len) 0
              (\<lparr>s0 = 0x5555555555555555, s1 = 0xaaaaaaaaaaaaaaaa\<rparr>, [0, 0, 0, 0])
      in (snprintf 65 (finalHash ! 3) (finalHash ! 2) (finalHash ! 1) (finalHash ! 0), g')) \<and>
   fst (hash message len g) = fst (hash message len g') \<and>
   fst (hash message len (snd (hash message' len' g))) = fst (hash message len g)"
proof (intro conjI)
  show "seed g = \<lparr>s0 = 0x5555555555555555, s1 = 0xaaaaaaaaaaaaaaaa\<rparr>"
    by (rule seed_eq)
  show "hash message len g =
     (let (g', finalHash) =
            hash_loop message len (numBlocks_of len) 0
              (\<lparr>s0 = 0x5555555555555555, s1 = 0xaaaaaaaaaaaaaaaa\<rparr>, [0, 0, 0, 0])
      in (snprintf 65 (finalHash ! 3) (finalHash ! 2) (finalHash ! 1) (finalHash ! 0), g'))"
    by (simp add: hash_def seed_eq Let_def)
  show "fst (hash message len g) = fst (hash message len g')"
    using hash_any_state [of message len g g'] by simp
  show "fst (hash message len (snd (hash message' len' g))) = fst (hash message len g)"
    using hash_any_state [of message len "snd (hash message' len' g)" g] by simp
qed

text \<open>
  C9, as stated: the state words hold after \<^verbatim>\<open>hash\<close> returns what they held before the
  call.  They are the file-scope variables \<open>s0\<close> and \<open>s1\<close>, which \<^verbatim>\<open>hash\<close> and every mixer
  call overwrite: hashing the empty message from the state of program start, where both
  words are 0, leaves two other values.
\<close>

theorem hash_state_counterexample:
  "snd (hash [] 0 initial_globals) = \<lparr>s0 = 0x6b168fd5bcfdace8, s1 = 0xb8364e5d9f33fab4\<rparr> \<and>
   snd (hash [] 0 initial_globals) \<noteq> initial_globals"
  by (simp add: hash_empty initial_globals_def)

text \<open>
  C9, amended: besides the output string, \<^verbatim>\<open>hash\<close> overwrites the two state words: after
  it returns they hold the state left by the last mixer call of the computation started
  from the seeds, a value that depends on the message and not on what the words held
  before the call.  The empty message and the one-byte message \<^verbatim>\<open>0x61\<close> leave two
  different states, whatever the words held before.
\<close>

theorem hash_final_state:
  "snd (hash message len g) =
     fst (hash_loop message len (numBlocks_of len) 0
            (\<lparr>s0 = 0x5555555555555555, s1 = 0xaaaaaaaaaaaaaaaa\<rparr>, [0, 0, 0, 0])) \<and>
   snd (hash message len g) = snd (hash message len g') \<and>
   snd (hash [] 0 g) = \<lparr>s0 = 0x6b168fd5bcfdace8, s1 = 0xb8364e5d9f33fab4\<rparr> \<and>
   snd (hash [0x61] 1 g) = \<lparr>s0 = 0xd05dfdbebf0c6f3b, s1 = 0x95faf2e06f4c25f0\<rparr> \<and>
   snd (hash [0x61] 1 g) \<noteq> snd (hash [] 0 g)"
proof (intro conjI)
  show "snd (hash message len g) =
     fst (hash_loop message len (numBlocks_of len) 0
            (\<lparr>s0 = 0x5555555555555555, s1 = 0xaaaaaaaaaaaaaaaa\<rparr>, [0, 0, 0, 0]))"
    by (simp add: hash_def seed_eq split_beta Let_def)
  show "snd (hash message len g) = snd (hash message len g')"
    using hash_any_state [of message len g g'] by simp
  show "snd (hash [] 0 g) = \<lparr>s0 = 0x6b168fd5bcfdace8, s1 = 0xb8364e5d9f33fab4\<rparr>"
    by (simp add: hash_empty)
  show "snd (hash [0x61] 1 g) = \<lparr>s0 = 0xd05dfdbebf0c6f3b, s1 = 0x95faf2e06f4c25f0\<rparr>"
    by (rule hash_a_state)
  show "snd (hash [0x61] 1 g) \<noteq> snd (hash [] 0 g)"
    by (simp add: hash_empty hash_a_state)
qed

section \<open>The digest of the empty message\<close>

text \<open>
  C10: for the empty message \<open>numBlocks\<close> is 1, the one padded block is 32 zero bytes,
  the loop is one pass of the body over it, and the digest is the 64-digit string below,
  which is not the all-zero string.
\<close>

theorem hash_empty_digest:
  "numBlocks_of 0 = 1 \<and>
   paddedBlock_of [] 0 0 = replicate 32 0 \<and>
   hash_loop [] 0 (numBlocks_of 0) 0 acc = hash_sub_blocks (replicate 32 0) acc \<and>
   fst (hash [] 0 g) = ''7d81bc06988293b549f0f7607044d93296ffeaffaaf9dfef82ca3f40841dae6f'' \<and>
   length (fst (hash [] 0 g)) = 64 \<and>
   fst (hash [] 0 g) \<noteq> replicate 64 (CHR ''0'')"
proof -
  have "hd ''7d81bc06988293b549f0f7607044d93296ffeaffaaf9dfef82ca3f40841dae6f'' \<noteq>
      hd (replicate 64 (CHR ''0''))"
    by simp
  then have "''7d81bc06988293b549f0f7607044d93296ffeaffaaf9dfef82ca3f40841dae6f'' \<noteq>
      replicate 64 (CHR ''0'')"
    by (rule contrapos_nn) (erule arg_cong)
  then show ?thesis
    by (simp add: numBlocks_of_0 paddedBlock_of_empty hash_loop_once hash_body_def hash_empty)
qed

section \<open>The blocks of a message\<close>

lemma ceil_div_32: "nat \<lceil>real L / 32\<rceil> = (L + 31) div 32"
proof -
  have "\<lceil>real L / 32\<rceil> = \<lceil>(of_int (int L) :: real) / of_int 32\<rceil>"
    by simp
  also have "\<dots> = - (- int L div 32)"
    by (rule ceiling_divide_eq_div)
  also have "\<dots> = int ((L + 31) div 32)"
    by (simp add: zdiv_int)
  finally show ?thesis
    by simp
qed

lemma unat_len:
  assumes "length message + 31 < 2 ^ 64"
  shows "unat (word_of_nat (length message) :: size_t) = length message"
  using assms by (simp add: unat_of_nat)

lemma numBlocks_of_alt:
  "numBlocks_of len = (if (len + 31) div 32 = 0 then 1 else (len + 31) div 32)"
  by (simp add: numBlocks_of_def blockSize_def subBlockSize_def Let_def word_greater_zero_iff
      add.commute)

lemma unat_numBlocks_of:
  assumes "L + 31 < 2 ^ 64"
  shows "unat (numBlocks_of (word_of_nat L)) = max 1 ((L + 31) div 32)"
proof -
  have l: "unat (word_of_nat L :: size_t) = L"
    using assms by (simp add: unat_of_nat)
  have "unat ((word_of_nat L :: size_t) + 31) = L + 31"
    using assms l by (simp add: unat_word_ariths)
  then have d: "unat (((word_of_nat L :: size_t) + 31) div 32) = (L + 31) div 32"
    by (simp add: unat_div)
  show ?thesis
  proof (cases "(L + 31) div 32 = 0")
    case True
    with d have "((word_of_nat L :: size_t) + 31) div 32 = 0"
      by (simp add: unat_eq_0)
    with True show ?thesis
      by (simp only: numBlocks_of_alt) simp
  next
    case False
    with d have "((word_of_nat L :: size_t) + 31) div 32 \<noteq> 0"
      by (metis unat_0)
    with False d show ?thesis
      by (simp only: numBlocks_of_alt) simp
  qed
qed


lemma size_t_succ: "(i :: size_t) < n \<Longrightarrow> unat (i + 1) = Suc (unat i)"
proof -
  assume "i < n"
  then have "unat i < unat n"
    by (simp add: word_less_nat_alt)
  moreover have "unat n < 2 ^ 64"
    using unsigned_less [of n] by simp
  ultimately have "unat i + unat (1 :: size_t) < 2 ^ LENGTH(64)"
    by simp
  then have "unat (i + 1) = unat i + unat (1 :: size_t)"
    by (simp only: unat_add_lem [THEN iffD1])
  then show ?thesis
    by simp
qed

lemma hash_loop_foldl:
  "i \<le> numBlocks \<Longrightarrow>
   hash_loop message len numBlocks i acc =
     foldl (\<lambda>a k. hash_body message len (word_of_nat k) a) acc [unat i..<unat numBlocks]"
proof (induction message len numBlocks i acc rule: hash_loop.induct)
  case (1 message len numBlocks i acc)
  show ?case
  proof (cases "i < numBlocks")
    case True
    then have s: "unat (i + 1) = Suc (unat i)"
      by (rule size_t_succ)
    from True have lt: "unat i < unat numBlocks"
      by (simp add: word_less_nat_alt)
    with s have "i + 1 \<le> numBlocks"
      by (simp add: word_le_nat_alt)
    with True have "hash_loop message len numBlocks (i + 1) (hash_body message len i acc) =
        foldl (\<lambda>a k. hash_body message len (word_of_nat k) a) (hash_body message len i acc)
          [unat (i + 1)..<unat numBlocks]"
      by (rule "1.IH")
    with True s lt show ?thesis
      by (simp add: hash_loop.simps [of message len numBlocks i] upt_conv_Cons)
  next
    case False
    with "1.prems" have "i = numBlocks"
      by simp
    then show ?thesis
      by (simp add: hash_loop.simps [of message len numBlocks numBlocks])
  qed
qed

lemma paddedBlock_of_slice:
  assumes "length message + 31 < 2 ^ 64"
    and "i < max 1 ((length message + 31) div 32)"
  shows "paddedBlock_of message (word_of_nat (length message)) (word_of_nat i) =
         padded_slice message i"
proof -
  let ?L = "length message"
  from assms have start_le: "i * 32 \<le> ?L"
    by (cases "?L = 0") auto
  from assms have end_lt: "i * 32 + 32 < 2 ^ 64"
    by (cases "?L = 0") auto
  have l: "unat (word_of_nat ?L :: size_t) = ?L"
    using assms by (simp add: unat_of_nat)
  have i: "unat (word_of_nat i :: size_t) = i"
    using end_lt by (simp add: unat_of_nat)
  have start: "unat ((word_of_nat i :: size_t) * 32) = i * 32"
    using end_lt i by (simp add: unat_word_ariths)
  have "end": "unat ((word_of_nat i :: size_t) * 32 + 32) = i * 32 + 32"
    using end_lt start by (simp add: unat_word_ariths)
  have gt: "(word_of_nat i :: size_t) * 32 + 32 > word_of_nat ?L \<longleftrightarrow> i * 32 + 32 > ?L"
    using l "end" by (simp add: word_less_nat_alt)
  have "(word_of_nat i :: size_t) * 32 \<le> word_of_nat ?L"
    using l start start_le by (simp add: word_le_nat_alt)
  then have sub: "unat ((word_of_nat ?L :: size_t) - word_of_nat i * 32) = ?L - i * 32"
    using l start by (simp add: unat_sub)
  show ?thesis
  proof (cases "i * 32 + 32 > ?L")
    case True
    with gt sub start show ?thesis
      by (simp add: paddedBlock_of_def padded_slice_def blockSize_def subBlockSize_def memcpy_def)
  next
    case False
    with gt start show ?thesis
      by (simp add: paddedBlock_of_def padded_slice_def blockSize_def subBlockSize_def memcpy_def)
  qed
qed

text \<open>
  C4: for a message of \<open>L\<close> bytes passed with its length, \<open>numBlocks\<close> is \<open>ceil(L / 32)\<close> with
  a floor of 1, the loop runs the body once for each block index below \<open>numBlocks\<close> in
  increasing order, and the block the body hashes at index \<open>i\<close> is the slice
  \<open>[i * 32, i * 32 + 32)\<close> padded with zero bytes on the right; lengths 31 and 32 give 1
  block and length 33 gives 2.  The length is a \<^verbatim>\<open>size_t\<close>: \<open>L + 31\<close> has to fit into
  64 bits, which holds for every message that fits into memory.
\<close>

theorem numBlocks_and_padding:
  "length message + 31 < 2 ^ 64 \<Longrightarrow>
   (let len = word_of_nat (length message);
        n = unat (numBlocks_of len)
    in n = numBlocks_spec (length message) \<and>
       hash_loop message len (numBlocks_of len) 0 acc =
         foldl (\<lambda>a i. hash_sub_blocks (padded_slice message i) a) acc [0..<n] \<and>
       (\<forall>i<n. paddedBlock_of message len (word_of_nat i) = padded_slice message i)) \<and>
   numBlocks_of 31 = 1 \<and> numBlocks_of 32 = 1 \<and> numBlocks_of 33 = 2"
proof -
  assume small: "length message + 31 < 2 ^ 64"
  let ?len = "word_of_nat (length message) :: size_t"
  let ?n = "unat (numBlocks_of ?len)"
  have n: "?n = max 1 ((length message + 31) div 32)"
    using small by (rule unat_numBlocks_of)
  then have spec: "?n = numBlocks_spec (length message)"
    by (simp add: numBlocks_spec_def ceil_div_32)
  have slice: "paddedBlock_of message ?len (word_of_nat i) = padded_slice message i" if "i < ?n" for i
    using small that n by (simp add: paddedBlock_of_slice)
  have "hash_loop message ?len (numBlocks_of ?len) 0 acc =
      foldl (\<lambda>a k. hash_body message ?len (word_of_nat k) a) acc [unat (0 :: size_t)..<?n]"
    by (rule hash_loop_foldl) simp
  also have "\<dots> = foldl (\<lambda>a i. hash_sub_blocks (padded_slice message i) a) acc [0..<?n]"
    by (rule foldl_cong) (simp_all add: hash_body_def slice)
  finally have loop: "hash_loop message ?len (numBlocks_of ?len) 0 acc =
      foldl (\<lambda>a i. hash_sub_blocks (padded_slice message i) a) acc [0..<?n]" .
  have "numBlocks_of 31 = 1" "numBlocks_of 32 = 1" "numBlocks_of 33 = 2"
    by (simp_all add: numBlocks_of_alt)
  with spec loop slice show ?thesis
    by (simp add: Let_def)
qed

theorem numBlocks_and_padding_witness:
  "length (replicate 33 (0x61 :: u8)) + 31 < 2 ^ 64 \<and>
   unat (numBlocks_of (word_of_nat (length (replicate 33 (0x61 :: u8))))) = 2 \<and>
   paddedBlock_of (replicate 33 0x61) 33 0 = replicate 32 0x61 \<and>
   paddedBlock_of (replicate 33 0x61) 33 1 = 0x61 # replicate 31 0"
proof -
  have h: "length (replicate 33 (0x61 :: u8)) + 31 < 2 ^ 64"
    by simp
  note t = numBlocks_and_padding [OF h, of "(initial_globals, [0, 0, 0, 0])", unfolded Let_def]
  from t have n: "unat (numBlocks_of (word_of_nat (length (replicate 33 (0x61 :: u8))))) = 2"
    by (simp add: numBlocks_spec_def)
  from t n have "\<forall>i<2. paddedBlock_of (replicate 33 0x61) 33 (word_of_nat i) =
      padded_slice (replicate 33 0x61) i"
    by simp
  then have slice: "i < 2 \<Longrightarrow> paddedBlock_of (replicate 33 0x61) 33 (word_of_nat i) =
      padded_slice (replicate 33 0x61) i" for i
    by blast
  from slice [of 0] slice [of 1] have "paddedBlock_of (replicate 33 0x61) 33 0 = replicate 32 0x61"
    and "paddedBlock_of (replicate 33 0x61) 33 1 = 0x61 # replicate 31 0"
    by (simp_all add: padded_slice_def)
  with h n show ?thesis
    by simp
qed

section \<open>The output string\<close>

lemma digits_Suc: "digits (Suc k) n = digits k (n div 16) @ [hex_digit (n mod 16)]"
proof -
  have "n div 16 ^ (k - j) = n div 16 div 16 ^ (k - 1 - j)" if "j < k" for j
  proof -
    from that have "k - j = Suc (k - 1 - j)"
      by simp
    then show ?thesis
      by (simp add: div_mult2_eq)
  qed
  then show ?thesis
    by (simp add: digits_def)
qed

lemma digits_0: "digits k 0 = replicate k (CHR ''0'')"
  by (simp add: digits_def hex_digit_def map_replicate_const)

lemma length_lx: "n < 16 ^ Suc k \<Longrightarrow> length (lx n) \<le> Suc k"
proof (induction k arbitrary: n)
  case 0
  then show ?case by (simp add: lx.simps [of n])
next
  case (Suc k)
  show ?case
  proof (cases "n < 16")
    case True
    then show ?thesis by (simp add: lx.simps [of n])
  next
    case False
    from Suc.prems have "n div 16 < 16 ^ Suc k"
      by (simp add: less_mult_imp_div_less)
    then have "length (lx (n div 16)) \<le> Suc k"
      by (rule Suc.IH)
    with False show ?thesis by (simp add: lx.simps [of n])
  qed
qed

lemma pad_lx: "n < 16 ^ Suc k \<Longrightarrow>
  replicate (Suc k - length (lx n)) (CHR ''0'') @ lx n = digits (Suc k) n"
proof (induction k arbitrary: n)
  case 0
  then show ?case by (simp add: lx.simps [of n] digits_def)
next
  case (Suc k)
  show ?case
  proof (cases "n < 16")
    case True
    then show ?thesis
      by (simp add: lx.simps [of n] digits_Suc [of "Suc k"] digits_0 del: replicate_Suc)
  next
    case False
    from Suc.prems have small: "n div 16 < 16 ^ Suc k"
      by (simp add: less_mult_imp_div_less)
    then have "replicate (Suc k - length (lx (n div 16))) (CHR ''0'') @ lx (n div 16) =
        digits (Suc k) (n div 16)"
      by (rule Suc.IH)
    moreover from small have "length (lx (n div 16)) \<le> Suc k"
      by (rule length_lx)
    ultimately show ?thesis
      using False by (simp add: lx.simps [of n] digits_Suc [of "Suc k"] Suc_diff_le)
  qed
qed

lemma fmt_016lx_hex16: "fmt_016lx w = hex16 w"
proof -
  have "unat w < 2 ^ 64"
    using unsigned_less [of w] by simp
  then have "unat w < 16 ^ Suc 15"
    by simp
  then have "replicate (Suc 15 - length (lx (unat w))) (CHR ''0'') @ lx (unat w) =
      digits (Suc 15) (unat w)"
    by (rule pad_lx)
  then show ?thesis
    by (simp add: fmt_016lx_def hex16_def digits_def Let_def)
qed

lemma length_hex16: "length (hex16 w) = 16"
  by (simp add: hex16_def)

lemma hex_digit_range: "d < 16 \<Longrightarrow> hex_digit d \<in> set ''0123456789abcdef''"
  unfolding hex_digit_def by (rule nth_mem) simp

lemma set_hex16: "set (hex16 w) \<subseteq> set ''0123456789abcdef''"
  using hex_digit_range by (auto simp: hex16_def simp del: set_simps)

lemma snprintf_hex16: "snprintf 65 a b c d = hex16 a @ hex16 b @ hex16 c @ hex16 d"
  by (simp add: snprintf_def fmt_016lx_hex16 length_hex16)

text \<open>
  C6: for every message the string \<^verbatim>\<open>hash\<close> writes is the accumulators \<open>finalHash[3]\<close>,
  \<open>finalHash[2]\<close>, \<open>finalHash[1]\<close>, \<open>finalHash[0]\<close> in this order, each as 16 lowercase
  hexadecimal digits with the most significant first; it has exactly 64 characters and
  each of them is one of \<^verbatim>\<open>0123456789abcdef\<close>.
\<close>

theorem hash_output_format:
  "(let finalHash = snd (hash_loop message len (numBlocks_of len) 0 (seed g, [0, 0, 0, 0]))
    in fst (hash message len g) =
         hex16 (finalHash ! 3) @ hex16 (finalHash ! 2) @ hex16 (finalHash ! 1) @
         hex16 (finalHash ! 0)) \<and>
   length (fst (hash message len g)) = 64 \<and>
   set (fst (hash message len g)) \<subseteq> set ''0123456789abcdef''"
proof -
  let ?fh = "snd (hash_loop message len (numBlocks_of len) 0 (seed g, [0, 0, 0, 0]))"
  have out: "fst (hash message len g) =
      hex16 (?fh ! 3) @ hex16 (?fh ! 2) @ hex16 (?fh ! 1) @ hex16 (?fh ! 0)"
    by (simp add: hash_def Let_def split_beta snprintf_hex16)
  have "length (fst (hash message len g)) = 64"
    by (simp only: out length_append length_hex16)
  moreover have "set (fst (hash message len g)) \<subseteq> set ''0123456789abcdef''"
    using set_hex16 by (simp only: out set_append Un_subset_iff)
  ultimately show ?thesis
    using out by (simp only: Let_def)
qed


theorem hash_output_format_witness:
  "fst (hash [] 0 initial_globals) =
     hex16 0x7d81bc06988293b5 @ hex16 0x49f0f7607044d932 @ hex16 0x96ffeaffaaf9dfef @
     hex16 0x82ca3f40841dae6f \<and>
   length (fst (hash [] 0 initial_globals)) = 64 \<and>
   set (fst (hash [] 0 initial_globals)) \<subseteq> set ''0123456789abcdef''"
  using hash_output_format [of "[]" 0 initial_globals]
  using set_hex16
  by (simp add: seed_eq numBlocks_of_0 hash_loop_once hash_body_def paddedBlock_of_empty
      hash_sub_blocks_zero length_hex16)

section \<open>hammingDistance: parsing and counting\<close>

lemma hex_char:
  assumes "c \<in> set ''0123456789abcdefABCDEF''"
  shows "hex_value c = Some (digit_value c)" and "\<not> isspace c" and "c \<noteq> CHR ''-''"
    and "c \<noteq> CHR ''+''" and "c \<noteq> CHR ''x''" and "c \<noteq> CHR ''X''"
  using assms by (auto simp: hex_value_def digit_value_def isspace_def)

lemma scan_digits_hex:
  "w \<le> length s \<Longrightarrow> \<forall>c \<in> set (take w s). c \<in> set ''0123456789abcdefABCDEF'' \<Longrightarrow>
   scan_digits w s v = (foldl (\<lambda>v c. v * 16 + of_nat (digit_value c)) v (take w s), drop w s)"
proof (induction w arbitrary: s v)
  case 0
  show ?case by simp
next
  case (Suc w)
  from Suc.prems(1) obtain c r where s: "s = c # r"
    by (cases s) auto
  with Suc.prems have c: "c \<in> set ''0123456789abcdefABCDEF''"
    and r: "w \<le> length r" "\<forall>c \<in> set (take w r). c \<in> set ''0123456789abcdefABCDEF''"
    by simp_all
  from r have "scan_digits w r (v * 16 + of_nat (digit_value c)) =
      (foldl (\<lambda>v c. v * 16 + of_nat (digit_value c)) (v * 16 + of_nat (digit_value c)) (take w r),
       drop w r)"
    by (rule Suc.IH)
  with s hex_char(1) [OF c] show ?case
    by simp
qed

lemma scan_lx_hex:
  assumes "16 \<le> length s" and "\<forall>c \<in> set (take 16 s). c \<in> set ''0123456789abcdefABCDEF''"
  shows "scan_lx 16 s =
    Some (foldl (\<lambda>v c. v * 16 + of_nat (digit_value c)) 0 (take 16 s), drop 16 s)"
proof -
  from assms(1) obtain c0 c1 r where s: "s = c0 # c1 # r"
    by (cases s; cases "tl s") auto
  with assms(2) have c0: "c0 \<in> set ''0123456789abcdefABCDEF''"
    and c1: "c1 \<in> set ''0123456789abcdefABCDEF''"
    by (simp_all add: numeral_eq_Suc)
  have d: "scan_digits 16 s 0 =
      (foldl (\<lambda>v c. v * 16 + of_nat (digit_value c)) 0 (take 16 s), drop 16 s)"
    using assms by (rule scan_digits_hex)
  have "dropWhile isspace s = s"
    using s hex_char(2) [OF c0] by simp
  then show ?thesis
    using hex_char [OF c0] hex_char [OF c1] d
    by (simp add: scan_lx_def s)
qed


lemma sscanf_four_groups:
  assumes "64 \<le> length d" and "\<forall>c \<in> set (take 64 d). c \<in> set ''0123456789abcdefABCDEF''"
    and "length bin = 4"
  shows "sscanf 4 0 d bin = [group_word d 0, group_word d 1, group_word d 2, group_word d 3]"
proof -
  have group: "scan_lx 16 (drop (16 * k) d) = Some (group_word d k, drop (16 * Suc k) d)"
    if "k < 4" for k
  proof -
    from that assms(1) have "16 \<le> length (drop (16 * k) d)"
      by simp
    moreover have "\<forall>c \<in> set (take 16 (drop (16 * k) d)). c \<in> set ''0123456789abcdefABCDEF''"
    proof
      fix c
      assume "c \<in> set (take 16 (drop (16 * k) d))"
      then have "c \<in> set (drop (16 * k) (take (16 * k + 16) d))"
        by (simp add: take_drop add.commute)
      then have "c \<in> set (take (16 * k + 16) d)"
        by (rule in_set_dropD)
      moreover from that have "16 * k + 16 \<le> 64"
        by simp
      then have "set (take (16 * k + 16) d) \<subseteq> set (take 64 d)"
        by (rule set_take_subset_set_take)
      ultimately have "c \<in> set (take 64 d)"
        by (rule subsetD [rotated])
      with assms(2) show "c \<in> set ''0123456789abcdefABCDEF''"
        by blast
    qed
    ultimately have "scan_lx 16 (drop (16 * k) d) =
        Some (foldl (\<lambda>v c. v * 16 + of_nat (digit_value c)) 0 (take 16 (drop (16 * k) d)),
              drop 16 (drop (16 * k) d))"
      by (rule scan_lx_hex)
    then show ?thesis
      by (simp add: group_word_def add.commute)
  qed
  from assms(3) obtain x0 x1 x2 x3 where bin: "bin = [x0, x1, x2, x3]"
    by (auto simp: length_Suc_conv numeral_eq_Suc)
  have four: "4 = Suc (Suc (Suc (Suc 0)))"
    by simp
  from group [of 0] group [of 1] group [of 2] group [of 3] show ?thesis
    by (simp add: four bin)
qed

lemma sscanf_well_formed:
  assumes "well_formed_digest d" and "length bin = 4"
  shows "sscanf 4 0 d bin = [group_word d 0, group_word d 1, group_word d 2, group_word d 3]"
  using assms by (intro sscanf_four_groups) (simp_all add: well_formed_digest_def)

lemma popcount_step: "popcount x = of_bool (bit x 0) + popcount (drop_bit 1 x)"
proof -
  have "[0..<64] = 0 # map Suc [0..<63]"
    by (simp add: map_Suc_upt upt_conv_Cons)
  then have "popcount x = of_bool (bit x 0) + length (filter (bit x \<circ> Suc) [0..<63])"
    by (simp add: popcount_def filter_map)
  moreover have "bit x \<circ> Suc = bit (drop_bit 1 x)"
    by (rule ext) (simp add: bit_drop_bit_eq)
  moreover have "[0..<64] = [0..<63] @ [63]"
    by (simp add: numeral_eq_Suc)
  then have "popcount (drop_bit 1 x) = length (filter (bit (drop_bit 1 x)) [0..<63])"
    by (simp add: popcount_def bit_drop_bit_eq bit_word_iff_drop_bit_and del: upt_Suc)
  ultimately show ?thesis
    by simp
qed

lemma popcount_0: "popcount 0 = 0"
  by (simp add: popcount_def)

lemma popcount_le: "popcount x \<le> 64"
  using length_filter_le [of "bit x" "[0..<64]"] by (simp add: popcount_def)

lemma count_loop_popcount: "count_loop xorVal distance = distance + int (popcount xorVal)"
proof (induction xorVal distance rule: count_loop.induct)
  case (1 xorVal distance)
  show ?case
  proof (cases "xorVal = 0")
    case True
    then show ?thesis
      by (simp add: count_loop.simps [of 0] popcount_0)
  next
    case False
    have "uint (xorVal AND 1) = of_bool (bit xorVal 0)"
      by (simp add: and_one_eq mod_2_eq_odd bit_0)
    with False "1.IH" show ?thesis
      by (simp add: count_loop.simps [of xorVal] popcount_step [of xorVal])
  qed
qed

lemma distance_loop_popcount:
  "distance_loop bin1 bin2 0 0 =
     int (popcount (bin1 ! 0 XOR bin2 ! 0) + popcount (bin1 ! 1 XOR bin2 ! 1) +
          popcount (bin1 ! 2 XOR bin2 ! 2) + popcount (bin1 ! 3 XOR bin2 ! 3))"
proof -
  have step: "distance_loop bin1 bin2 i d =
      distance_loop bin1 bin2 (i + 1) (d + int (popcount (bin1 ! i XOR bin2 ! i)))"
    if "i < 4" for i d
    using that by (simp add: distance_loop.simps [of bin1 bin2 i] count_loop_popcount)
  have stop: "distance_loop bin1 bin2 4 d = d" for d
    by (simp add: distance_loop.simps [of bin1 bin2 4])
  have "distance_loop bin1 bin2 0 0 = distance_loop bin1 bin2 1 (int (popcount (bin1 ! 0 XOR bin2 ! 0)))"
    using step [of 0 0] by (simp add: eval_nat_numeral)
  also have "\<dots> = distance_loop bin1 bin2 2
      (int (popcount (bin1 ! 0 XOR bin2 ! 0)) + int (popcount (bin1 ! 1 XOR bin2 ! 1)))"
    using step [of 1] by (simp add: eval_nat_numeral)
  also have "\<dots> = distance_loop bin1 bin2 3
      (int (popcount (bin1 ! 0 XOR bin2 ! 0)) + int (popcount (bin1 ! 1 XOR bin2 ! 1)) +
       int (popcount (bin1 ! 2 XOR bin2 ! 2)))"
    using step [of 2] by (simp add: eval_nat_numeral)
  also have "\<dots> = distance_loop bin1 bin2 4
      (int (popcount (bin1 ! 0 XOR bin2 ! 0)) + int (popcount (bin1 ! 1 XOR bin2 ! 1)) +
       int (popcount (bin1 ! 2 XOR bin2 ! 2)) + int (popcount (bin1 ! 3 XOR bin2 ! 3)))"
    using step [of 3] by (simp add: eval_nat_numeral)
  finally show ?thesis
    by (simp add: stop)
qed

lemma digit_value_01: "digit_value (CHR ''0'') = 0" "digit_value (CHR ''1'') = 1"
  by (simp_all add: digit_value_def hex_value_def)

lemma foldl_zero_digits:
  "foldl (\<lambda>v c. v * 16 + of_nat (digit_value c)) (0 :: u64) (replicate n (CHR ''0'')) = 0"
  by (induction n) (simp_all add: digit_value_01)

lemma group_word_zeros:
  "k < 4 \<Longrightarrow> group_word (replicate 64 (CHR ''0'') @ rest) k = 0"
  by (simp add: group_word_def foldl_zero_digits min_def)

lemma group_word_one:
  "group_word (replicate 63 (CHR ''0'') @ ''1'') 0 = 0"
  "group_word (replicate 63 (CHR ''0'') @ ''1'') (Suc 0) = 0"
  "group_word (replicate 63 (CHR ''0'') @ ''1'') 2 = 0"
  "group_word (replicate 63 (CHR ''0'') @ ''1'') 3 = 1"
  by (simp_all add: group_word_def foldl_zero_digits digit_value_01)

lemma popcount_1: "popcount 1 = 1"
  by (simp add: popcount_0 popcount_step [of 1])

text \<open>
  C1, as stated: a pair of strings of which one is not a well-formed digest makes
  \<^verbatim>\<open>hammingDistance\<close> fail with \<open>MalformedDigest\<close>.  The function has no failing exit:
  \<^verbatim>\<open>"xyz"\<close> converts no group, \<open>bin1\<close> keeps the words it held (here zeros), and against
  the all-zero digest the result is the distance 0; a digest followed by four more
  characters is cut after its 64 digits without notice, and the result is again 0.
\<close>

theorem hammingDistance_counterexample:
  "\<not> well_formed_digest ''xyz'' \<and>
   hammingDistance ''xyz'' (replicate 64 (CHR ''0'')) [0, 0, 0, 0] [5, 6, 7, 8] = Inr 0 \<and>
   \<not> well_formed_digest (replicate 64 (CHR ''0'') @ ''beef'') \<and>
   hammingDistance (replicate 64 (CHR ''0'') @ ''beef'') (replicate 64 (CHR ''0''))
     [1, 2, 3, 4] [5, 6, 7, 8] = Inr 0"
proof -
  have z: "sscanf 4 0 (replicate 64 (CHR ''0'') @ rest) bin = [0, 0, 0, 0]" if "length bin = 4"
    for rest bin
  proof -
    have "sscanf 4 0 (replicate 64 (CHR ''0'') @ rest) bin =
        [group_word (replicate 64 (CHR ''0'') @ rest) 0, group_word (replicate 64 (CHR ''0'') @ rest) 1,
         group_word (replicate 64 (CHR ''0'') @ rest) 2, group_word (replicate 64 (CHR ''0'') @ rest) 3]"
      using that by (intro sscanf_four_groups) simp_all
    then show ?thesis
      by (simp add: group_word_zeros)
  qed
  have four: "4 = Suc (Suc (Suc (Suc 0)))"
    by simp
  have x: "sscanf 4 0 ''xyz'' bin = bin" for bin
    by (simp add: four scan_lx_def isspace_def hex_value_def)
  have d: "distance_loop [0, 0, 0, 0] [0, 0, 0, 0] 0 0 = 0"
    by (simp add: distance_loop_popcount popcount_0)
  from z [of "[5, 6, 7, 8]" "[]"] z [of "[1, 2, 3, 4]" "''beef''"] x [of "[0, 0, 0, 0]"] d
  show ?thesis
    by (simp add: hammingDistance_def well_formed_digest_def)
qed

text \<open>
  C1, amended: \<^verbatim>\<open>hammingDistance\<close> never fails, it returns an integer for every pair of
  strings.  For every pair of well-formed digests of 64 hexadecimal digits the result is
  the number of bits in which the two 256-bit values differ, between 0 and 256, whatever
  the arrays held before.
\<close>

theorem hammingDistance_result:
  "(\<exists>n. hammingDistance hex1 hex2 bin1 bin2 = Inr n) \<and>
   (well_formed_digest d1 \<and> well_formed_digest d2 \<and> length b1 = 4 \<and> length b2 = 4 \<longrightarrow>
      hammingDistance d1 d2 b1 b2 = Inr (int (bit_distance d1 d2)) \<and> bit_distance d1 d2 \<le> 256)"
proof (intro conjI impI)
  show "\<exists>n. hammingDistance hex1 hex2 bin1 bin2 = Inr n"
    by (simp add: hammingDistance_def)
next
  assume wf: "well_formed_digest d1 \<and> well_formed_digest d2 \<and> length b1 = 4 \<and> length b2 = 4"
  then have "sscanf 4 0 d1 b1 = [group_word d1 0, group_word d1 1, group_word d1 2, group_word d1 3]"
    and "sscanf 4 0 d2 b2 = [group_word d2 0, group_word d2 1, group_word d2 2, group_word d2 3]"
    by (simp_all add: sscanf_well_formed)
  moreover have "[0..<4] = [0, 1, 2, 3]"
    by (simp add: upt_conv_Cons)
  ultimately show "hammingDistance d1 d2 b1 b2 = Inr (int (bit_distance d1 d2))"
    by (simp add: hammingDistance_def distance_loop_popcount bit_distance_def)
next
  have "[0..<4] = [0, 1, 2, 3]"
    by (simp add: upt_conv_Cons)
  then show "bit_distance d1 d2 \<le> 256"
    using popcount_le [of "group_word d1 0 XOR group_word d2 0"]
      popcount_le [of "group_word d1 1 XOR group_word d2 1"]
      popcount_le [of "group_word d1 2 XOR group_word d2 2"]
      popcount_le [of "group_word d1 3 XOR group_word d2 3"]
    by (simp add: bit_distance_def)
qed

theorem hammingDistance_result_witness:
  "well_formed_digest (replicate 64 (CHR ''0'')) \<and>
   well_formed_digest (replicate 63 (CHR ''0'') @ ''1'') \<and>
   length [1, 2, 3, 4 :: u64] = 4 \<and> length [5, 6, 7, 8 :: u64] = 4 \<and>
   hammingDistance (replicate 64 (CHR ''0'')) (replicate 63 (CHR ''0'') @ ''1'')
     [1, 2, 3, 4] [5, 6, 7, 8] = Inr 1"
proof -
  have wf: "well_formed_digest (replicate 64 (CHR ''0'')) \<and>
      well_formed_digest (replicate 63 (CHR ''0'') @ ''1'') \<and>
      length [1, 2, 3, 4 :: u64] = 4 \<and> length [5, 6, 7, 8 :: u64] = 4"
    by (simp add: well_formed_digest_def)
  have "[0..<4] = [0, 1, 2, 3]"
    by (simp add: upt_conv_Cons)
  then have "bit_distance (replicate 64 (CHR ''0'')) (replicate 63 (CHR ''0'') @ ''1'') = 1"
    using group_word_zeros [of _ "[]"]
    by (simp add: bit_distance_def group_word_one popcount_0 popcount_1)
  with wf hammingDistance_result [of "[]" "[]" "[]" "[]" "replicate 64 (CHR ''0'')"
      "replicate 63 (CHR ''0'') @ ''1''" "[1, 2, 3, 4]" "[5, 6, 7, 8]"]
  show ?thesis
    by simp
qed

section \<open>Repeated mixer outputs\<close>

lemma mix_calls_sums:
  "fst (mix_calls bs g) =
     map (\<lambda>k. s1 (snd (mix_calls (take k bs) g)) + s0 (snd (mix_calls (take k bs) g)))
       [0..<length bs]"
proof (induction bs arbitrary: g)
  case Nil
  show ?case by simp
next
  case (Cons b bs)
  have "[0..<length (b # bs)] = 0 # map Suc [0..<length bs]"
    by (simp add: map_Suc_upt upt_conv_Cons del: upt_Suc)
  then show ?case
    using Cons.IH [of "snd (Xorshift128X (ucast b) g)"]
    by (simp add: split_beta comp_def) (simp add: Xorshift128X_def Let_def)
qed

lemma mix_calls_zero_state:
  "mix_calls (replicate n 0) initial_globals = (replicate n 0, initial_globals)"
  by (induction n) (simp_all add: initial_globals_def mix_calls_rec del: mix_calls.simps(2))

text \<open>
  C8, as stated: for every state and byte, successive mixer calls never return an output
  twice, and the \<open>2 * length\<close> outputs inside one \<^verbatim>\<open>hashBlock\<close> call are pairwise
  distinct.  In the state of program start, where both words are 0, a call with input 0
  returns 0 and leaves the state as it was: the four mixer outputs of \<^verbatim>\<open>hashBlock\<close> on
  two zero bytes are all 0.
\<close>

theorem mixer_outputs_counterexample:
  "snd (Xorshift128X 0 initial_globals) = initial_globals \<and>
   fst (Xorshift128X 0 (snd (Xorshift128X 0 initial_globals))) = fst (Xorshift128X 0 initial_globals) \<and>
   fst (mix_calls ([0, 0] @ rev [0, 0]) initial_globals) = [0, 0, 0, 0] \<and>
   \<not> distinct (fst (mix_calls ([0, 0] @ rev [0, 0]) initial_globals))"
  by (simp add: initial_globals_def Xorshift128X_def)

text \<open>
  C8, amended: each mixer call returns the sum of the two state words it finds and then
  replaces the state, so the outputs of successive calls are the sums along the sequence
  of states.  They can repeat: the all-zero state with input 0 is its own successor, and
  any number of such calls return 0.  From the seed that \<^verbatim>\<open>hash\<close> installs, the 16 mixer
  outputs of \<^verbatim>\<open>hashBlock\<close> on 8 zero bytes are pairwise distinct.
\<close>

theorem mixer_outputs:
  "fst (mix_calls bs g) =
     map (\<lambda>k. let gk = snd (mix_calls (take k bs) g) in s1 gk + s0 gk) [0..<length bs] \<and>
   mix_calls (replicate n 0) initial_globals = (replicate n 0, initial_globals) \<and>
   distinct (fst (mix_calls (replicate 8 0 @ rev (replicate 8 0)) (seed g')))"
proof (intro conjI)
  show "fst (mix_calls bs g) =
     map (\<lambda>k. let gk = snd (mix_calls (take k bs) g) in s1 gk + s0 gk) [0..<length bs]"
    using mix_calls_sums [of bs g] by (simp add: Let_def)
  show "mix_calls (replicate n 0) initial_globals = (replicate n 0, initial_globals)"
    by (rule mix_calls_zero_state)
  have "replicate 8 0 @ rev (replicate 8 (0 :: u8)) =
      [0, 0, 0, 0, 0, 0, 0, 0, 0, 0, 0, 0, 0, 0, 0, 0]"
    by (simp add: replicate_8)
  then show "distinct (fst (mix_calls (replicate 8 0 @ rev (replicate 8 0)) (seed g')))"
    by (simp only: seed_eq mix_calls_zero_seed) simp
qed

end
